theory Spec2Isabelle
  imports Main
begin

section \<open>The filter modal of src/components/FilterModal.tsx\<close>

text \<open>
  The component keeps two pieces of hook state (\<open>selectedFilter\<close>, \<open>isDownloading\<close>) and
  talks to its owner through two props, \<open>onClose\<close> and \<open>onDownload\<close>. Both props are
  collaborators that live outside the file, so a call to either of them is recorded in a
  log of calls, in program order, together with the calls of the two state setters and of
  \<open>console.error\<close>. The only suspension point is the \<open>await\<close> in \<open>handleDownloadClick\<close>:
  the handler is split there into the part that runs inside the click and the part that
  runs when the awaited promise settles.

  A state setter writes the hook state; what the page shows, and what a handler's closure
  holds, is the hook state as it was at the last committed render. The two are kept
  apart: the variables \<open>selectedFilter\<close> and \<open>isDownloading\<close> that the body of the
  component reads (the \<open>disabled\<close> attribute of line 113, the \<open>selectedFilter.css\<close> of
  line 41) are those of the last render, and they catch up with the setters only when the
  component renders again.
\<close>

subsection \<open>Data\<close>

record Filter =
  name :: string
  css :: string

definition FILTERS :: "Filter list" where
  "FILTERS =
    [\<lparr>name = ''Original'', css = ''none''\<rparr>,
     \<lparr>name = ''Sepia'', css = ''sepia(0.8)''\<rparr>,
     \<lparr>name = ''Grayscale'', css = ''grayscale(1)''\<rparr>,
     \<lparr>name = ''Vintage'', css = ''sepia(0.5) contrast(1.1) brightness(0.9) saturate(1.2)''\<rparr>,
     \<lparr>name = ''Cold'', css = ''contrast(1.1) brightness(1.05) hue-rotate(-15deg)''\<rparr>,
     \<lparr>name = ''Warm'', css = ''sepia(0.3) saturate(1.4) hue-rotate(-10deg) contrast(0.95)''\<rparr>]"

text \<open>The \<open>image\<close> prop of \<open>FilterModalProps\<close>.\<close>

record Image =
  decade :: string
  url :: string

text \<open>The value a rejected promise or a \<open>throw\<close> carries (the \<open>e\<close> of the catch clause).\<close>

type_synonym fault = string

text \<open>The arguments of one \<open>onDownload\<close> call: decade, imageUrl, filterCss.\<close>

type_synonym export_args = "string \<times> string \<times> string"

text \<open>The calls the component makes, as they appear in the source.\<close>

datatype call =
    SetSelectedFilter Filter
  | SetIsDownloading bool
  | OnDownload string string string
  | ConsoleError fault
  | OnClose

text \<open>The two \<open>useState\<close> cells.\<close>

record ModalState =
  selectedFilter :: Filter
  isDownloading :: bool

text \<open>
  A mounted modal: its hook state as the setters have left it, the hook state of the last
  committed render, the calls made so far, and the \<open>handleDownloadClick\<close> invocations
  that are suspended at their \<open>await\<close>, each with the arguments it handed to
  \<open>onDownload\<close>.
\<close>

record World =
  hooks :: ModalState
  rendered :: ModalState
  calls :: "call list"
  awaiting :: "export_args list"

subsection \<open>State initialisers and setters\<close>

text \<open>\<open>useState<Filter>(FILTERS[0])\<close> and \<open>useState(false)\<close>.\<close>

definition useState_initial :: ModalState where
  "useState_initial = \<lparr>selectedFilter = FILTERS ! 0, isDownloading = False\<rparr>"

definition mount :: World where
  "mount = \<lparr>hooks = useState_initial, rendered = useState_initial, calls = [], awaiting = []\<rparr>"

text \<open>The component renders again: the render reads the hook state and is committed.\<close>

definition commit :: "World \<Rightarrow> World" where
  "commit w = w\<lparr>rendered := hooks w\<rparr>"

definition setSelectedFilter :: "Filter \<Rightarrow> ModalState \<Rightarrow> ModalState" where
  "setSelectedFilter f s = s\<lparr>selectedFilter := f\<rparr>"

definition setIsDownloading :: "bool \<Rightarrow> ModalState \<Rightarrow> ModalState" where
  "setIsDownloading b s = s\<lparr>isDownloading := b\<rparr>"

text \<open>The same calls on a mounted modal, logged.\<close>

definition call_setSelectedFilter :: "Filter \<Rightarrow> World \<Rightarrow> World" where
  "call_setSelectedFilter f w =
     w\<lparr>hooks := setSelectedFilter f (hooks w), calls := calls w @ [SetSelectedFilter f]\<rparr>"

definition call_setIsDownloading :: "bool \<Rightarrow> World \<Rightarrow> World" where
  "call_setIsDownloading b w =
     w\<lparr>hooks := setIsDownloading b (hooks w), calls := calls w @ [SetIsDownloading b]\<rparr>"

definition onClose :: "World \<Rightarrow> World" where
  "onClose w = w\<lparr>calls := calls w @ [OnClose]\<rparr>"

definition onDownload :: "string \<Rightarrow> string \<Rightarrow> string \<Rightarrow> World \<Rightarrow> World" where
  "onDownload d u c w = w\<lparr>calls := calls w @ [OnDownload d u c]\<rparr>"

definition console_error :: "fault \<Rightarrow> World \<Rightarrow> World" where
  "console_error e w = w\<lparr>calls := calls w @ [ConsoleError e]\<rparr>"

subsection \<open>try / catch / finally\<close>

text \<open>
  How a block of statements ends: normally, or abruptly with a thrown value. The two
  combinators are the JavaScript rules: a catch clause runs on an abrupt completion only
  and replaces it by its own; a finally block runs on both and keeps the completion of
  what came before unless it ends abruptly itself.
\<close>

datatype completion = Normal | Abrupt fault

definition try_catch ::
  "completion \<times> World \<Rightarrow> (fault \<Rightarrow> World \<Rightarrow> completion \<times> World) \<Rightarrow> completion \<times> World" where
  "try_catch r handler =
     (case r of (Normal, w) \<Rightarrow> (Normal, w) | (Abrupt e, w) \<Rightarrow> handler e w)"

definition try_finally ::
  "completion \<times> World \<Rightarrow> (World \<Rightarrow> completion \<times> World) \<Rightarrow> completion \<times> World" where
  "try_finally r finalizer =
     (case r of (c, w) \<Rightarrow>
        (case finalizer w of (Normal, w') \<Rightarrow> (c, w') | (Abrupt e, w') \<Rightarrow> (Abrupt e, w')))"

subsection \<open>handleDownloadClick\<close>

text \<open>
  What the export collaborator does when it is called: it hands back a promise, or it
  throws before returning one. A promise later resolves or rejects.
\<close>

datatype reply = Promise | Threw fault

datatype outcome = Resolved | Rejected fault

definition await :: "outcome \<Rightarrow> completion" where
  "await out = (case out of Resolved \<Rightarrow> Normal | Rejected e \<Rightarrow> Abrupt e)"

text \<open>
  The handler from the point where the try block's only statement has completed with
  \<open>c\<close>: the catch clause logs, the finally block resets the flag and then closes.
\<close>

definition handleDownloadClick_resume :: "completion \<Rightarrow> World \<Rightarrow> completion \<times> World" where
  "handleDownloadClick_resume c w =
     try_finally
       (try_catch (c, w) (\<lambda>e w1. (Normal, console_error e w1)))
       (\<lambda>w2. (Normal, onClose (call_setIsDownloading False w2)))"

text \<open>
  The handler up to the \<open>await\<close>. It does not read \<open>isDownloading\<close>. The arguments of
  \<open>onDownload\<close> are read from the props and from the \<open>selectedFilter\<close> of the render the
  handler belongs to, which is the last committed one.
\<close>

definition handleDownloadClick :: "Image \<Rightarrow> reply \<Rightarrow> World \<Rightarrow> World" where
  "handleDownloadClick img r w =
     (let args = (decade img, url img, css (selectedFilter (rendered w)));
          w1 = call_setIsDownloading True w;
          w2 = onDownload (decade img) (url img) (css (selectedFilter (rendered w))) w1
      in case r of
           Promise \<Rightarrow> w2\<lparr>awaiting := awaiting w2 @ [args]\<rparr>
         | Threw e \<Rightarrow> snd (handleDownloadClick_resume (Abrupt e) w2))"

subsection \<open>Events\<close>

text \<open>
  What can happen to a mounted modal: a click on the \<open>i\<close>-th filter button (one button per
  entry of \<open>FILTERS\<close>, in order), on Cancel, on the backdrop, on Download, the settling
  of the \<open>i\<close>-th promise being awaited, and a render of the component. Every button sits
  inside the inner panel, whose \<open>onClick\<close> stops propagation, so a click on a button
  never reaches the backdrop's \<open>onClick\<close>. A click is dispatched against the last
  committed render, not against what the setters have written since: the only thing that
  keeps a click on Download from running the handler is the attribute
  \<open>disabled={isDownloading}\<close> of that render. When renders happen is up to React and to
  whoever dispatches the events, so a render is an event of its own; several clicks may
  arrive between two renders. A click on a filter button that does not exist dispatches
  nothing, and neither does the settling of a promise nobody awaits.
\<close>

datatype event =
    ClickFilter nat
  | ClickCancel
  | ClickBackdrop
  | ClickDownload reply
  | Settle nat outcome
  | Render

fun step :: "Image \<Rightarrow> event \<Rightarrow> World \<Rightarrow> World" where
  "step img (ClickFilter i) w =
     (if i < length FILTERS then call_setSelectedFilter (FILTERS ! i) w else w)"
| "step img ClickCancel w = onClose w"
| "step img ClickBackdrop w = onClose w"
| "step img (ClickDownload r) w =
     (if isDownloading (rendered w) then w else handleDownloadClick img r w)"
| "step img (Settle i out) w =
     (if i < length (awaiting w)
      then snd (handleDownloadClick_resume (await out)
                 (w\<lparr>awaiting := take i (awaiting w) @ drop (Suc i) (awaiting w)\<rparr>))
      else w)"
| "step img Render w = commit w"

fun run :: "Image \<Rightarrow> event list \<Rightarrow> World \<Rightarrow> World" where
  "run img [] w = w"
| "run img (e # es) w = run img es (step img e w)"

subsection \<open>Observations on the call log\<close>

text \<open>How often the closure signal was given, and the exports that were started.\<close>

definition closures :: "World \<Rightarrow> nat" where
  "closures w = count_list (calls w) OnClose"

fun exports :: "call list \<Rightarrow> export_args list" where
  "exports [] = []"
| "exports (OnDownload d u c # cs) = (d, u, c) # exports cs"
| "exports (_ # cs) = exports cs"

text \<open>The events by which the user cancels: the Cancel button and the backdrop.\<close>

fun is_cancel :: "event \<Rightarrow> bool" where
  "is_cancel ClickCancel = True"
| "is_cancel ClickBackdrop = True"
| "is_cancel _ = False"

text \<open>
  Sequences of events in which the component renders between one click on Download and the
  next. The flag says whether Download has been clicked since the last render.
\<close>

fun renders_between_downloads :: "bool \<Rightarrow> event list \<Rightarrow> bool" where
  "renders_between_downloads clicked [] = True"
| "renders_between_downloads clicked (Render # es) = renders_between_downloads False es"
| "renders_between_downloads clicked (ClickDownload r # es) =
     (\<not> clicked \<and> renders_between_downloads True es)"
| "renders_between_downloads clicked (e # es) = renders_between_downloads clicked es"

text \<open>Filter clicks, each followed by a render.\<close>

fun select_and_render :: "nat list \<Rightarrow> event list" where
  "select_and_render [] = []"
| "select_and_render (j # js) = ClickFilter j # Render # select_and_render js"

text \<open>
  The flag is set exactly while an export is in flight, at most one is, and unless
  Download has been clicked since the last render, that render shows the flag of an
  export in flight.
\<close>

definition one_in_flight :: "bool \<Rightarrow> World \<Rightarrow> bool" where
  "one_in_flight clicked w \<longleftrightarrow>
     length (awaiting w) \<le> 1
     \<and> (isDownloading (hooks w) \<longleftrightarrow> awaiting w \<noteq> [])
     \<and> (clicked \<or> awaiting w = [] \<or> isDownloading (rendered w))"

section \<open>Properties\<close>

subsection \<open>Initial state\<close>

text \<open>
  Claim C4. A freshly initialised session has the catalog's first entry selected, which is
  the filter named Original with transform none, and is not exporting.
\<close>

theorem initial_session:
  "selectedFilter useState_initial = hd FILTERS
   \<and> selectedFilter (hooks mount) = hd FILTERS
   \<and> hd FILTERS = \<lparr>name = ''Original'', css = ''none''\<rparr>
   \<and> isDownloading useState_initial = False
   \<and> isDownloading (hooks mount) = False"
  by (simp add: useState_initial_def mount_def FILTERS_def)


subsection \<open>Selection\<close>

lemma step_ClickFilter_hooks:
  "hooks (step img (ClickFilter i) w) =
     (if i < length FILTERS then setSelectedFilter (FILTERS ! i) (hooks w) else hooks w)"
  by (simp add: call_setSelectedFilter_def)

lemma step_ClickFilter_awaiting: "awaiting (step img (ClickFilter i) w) = awaiting w"
  by (simp add: call_setSelectedFilter_def)



text \<open>
  Claim C8. Selecting a filter never changes \<open>isDownloading\<close>, whatever the filter and the
  state: the setter writes \<open>selectedFilter\<close> only, and a click on a filter button leaves
  the flag and the exports in flight as they were.
\<close>

theorem select_keeps_isDownloading:
  "isDownloading (setSelectedFilter f s) = isDownloading s
   \<and> isDownloading (hooks (call_setSelectedFilter f w)) = isDownloading (hooks w)
   \<and> isDownloading (hooks (step img (ClickFilter i) w)) = isDownloading (hooks w)
   \<and> awaiting (step img (ClickFilter i) w) = awaiting w"
  by (simp add: setSelectedFilter_def call_setSelectedFilter_def)

subsection \<open>The download handler\<close>

lemma resume_fst: "fst (handleDownloadClick_resume c w) = Normal"
  by (cases c) (simp_all add: handleDownloadClick_resume_def try_finally_def try_catch_def)

lemma resume_calls:
  "calls (snd (handleDownloadClick_resume c w)) =
     calls w @ (case c of Normal \<Rightarrow> [] | Abrupt e \<Rightarrow> [ConsoleError e])
       @ [SetIsDownloading False, OnClose]"
  by (cases c)
    (simp_all add: handleDownloadClick_resume_def try_finally_def try_catch_def
      onClose_def call_setIsDownloading_def console_error_def)

lemma resume_hooks:
  "hooks (snd (handleDownloadClick_resume c w)) = setIsDownloading False (hooks w)"
  by (cases c)
    (simp_all add: handleDownloadClick_resume_def try_finally_def try_catch_def
      onClose_def call_setIsDownloading_def console_error_def)

lemma resume_rendered: "rendered (snd (handleDownloadClick_resume c w)) = rendered w"
  by (cases c)
    (simp_all add: handleDownloadClick_resume_def try_finally_def try_catch_def
      onClose_def call_setIsDownloading_def console_error_def)

lemma resume_awaiting: "awaiting (snd (handleDownloadClick_resume c w)) = awaiting w"
  by (cases c)
    (simp_all add: handleDownloadClick_resume_def try_finally_def try_catch_def
      onClose_def call_setIsDownloading_def console_error_def)

lemma click_calls:
  "calls (handleDownloadClick img r w) =
     calls w @ [SetIsDownloading True,
                OnDownload (decade img) (url img) (css (selectedFilter (rendered w)))]
       @ (case r of Promise \<Rightarrow> []
          | Threw e \<Rightarrow> [ConsoleError e, SetIsDownloading False, OnClose])"
  by (cases r)
    (simp_all add: handleDownloadClick_def Let_def resume_calls
      onDownload_def call_setIsDownloading_def)

lemma click_hooks:
  "hooks (handleDownloadClick img r w) =
     setIsDownloading (case r of Promise \<Rightarrow> True | Threw e \<Rightarrow> False) (hooks w)"
  by (cases r)
    (simp_all add: handleDownloadClick_def Let_def resume_hooks
      onDownload_def call_setIsDownloading_def setIsDownloading_def)

lemma click_awaiting:
  "awaiting (handleDownloadClick img r w) =
     awaiting w @ (case r of Promise \<Rightarrow> [(decade img, url img, css (selectedFilter (rendered w)))]
                   | Threw e \<Rightarrow> [])"
  by (cases r)
    (simp_all add: handleDownloadClick_def Let_def resume_awaiting
      onDownload_def call_setIsDownloading_def)

lemma click_rendered: "rendered (handleDownloadClick img r w) = rendered w"
  by (cases r)
    (simp_all add: handleDownloadClick_def Let_def resume_rendered
      onDownload_def call_setIsDownloading_def)

lemma exports_append: "exports (cs @ ds) = exports cs @ exports ds"
  by (induction cs rule: exports.induct) simp_all

lemma count_OnClose_append:
  "count_list (cs @ ds) OnClose = count_list cs OnClose + count_list ds OnClose"
  by (induction cs) simp_all

text \<open>
  Claim C10. The download path never writes the selection: the handler up to its
  \<open>await\<close>, the handler after it, the two events that run them, and a whole download
  from click to settlement all leave \<open>selectedFilter\<close> as it was, for every reply and
  every outcome of the export collaborator.
\<close>

theorem download_keeps_selectedFilter:
  "selectedFilter (hooks (handleDownloadClick img r w)) = selectedFilter (hooks w)
   \<and> selectedFilter (hooks (snd (handleDownloadClick_resume c w))) = selectedFilter (hooks w)
   \<and> selectedFilter (hooks (step img (ClickDownload r) w)) = selectedFilter (hooks w)
   \<and> selectedFilter (hooks (step img (Settle i out) w)) = selectedFilter (hooks w)
   \<and> selectedFilter (hooks (run img [ClickDownload r, Settle i out] w))
       = selectedFilter (hooks w)"
  by (simp add: click_hooks resume_hooks setIsDownloading_def)


lemma step_Settle_calls:
  "i < length (awaiting w) \<Longrightarrow>
     calls (step img (Settle i out) w) =
       calls w @ (case out of Resolved \<Rightarrow> [] | Rejected e \<Rightarrow> [ConsoleError e])
         @ [SetIsDownloading False, OnClose]"
  by (cases out) (simp_all add: resume_calls await_def)

lemma step_Settle_hooks:
  "i < length (awaiting w) \<Longrightarrow>
     hooks (step img (Settle i out) w) = setIsDownloading False (hooks w)"
  by (simp add: resume_hooks)

lemma step_Settle_awaiting:
  "i < length (awaiting w) \<Longrightarrow>
     awaiting (step img (Settle i out) w) = take i (awaiting w) @ drop (Suc i) (awaiting w)"
  by (simp add: resume_awaiting)

text \<open>
  Claim C1. Whatever the export collaborator does (its promise resolves, its promise
  rejects, or it throws at once), the rest of the handler completes normally, so no fault
  of the collaborator leaves \<open>handleDownloadClick\<close>; afterwards \<open>isDownloading\<close> is false,
  and the last two calls made are the reset of the flag and then \<open>onClose\<close>, which is
  called exactly once. The same holds for the event that settles an awaited promise and
  for a whole download, from the click on the enabled button to the settlement, be it
  from the last render or from an idle state that is rendered first.
\<close>

theorem download_cleanup:
  "fst (handleDownloadClick_resume c w) = Normal
   \<and> \<not> isDownloading (hooks (snd (handleDownloadClick_resume c w)))
   \<and> calls (snd (handleDownloadClick_resume c w)) =
       calls w @ (case c of Normal \<Rightarrow> [] | Abrupt e \<Rightarrow> [ConsoleError e])
         @ [SetIsDownloading False, OnClose]
   \<and> closures (snd (handleDownloadClick_resume c w)) = closures w + 1
   \<and> (i < length (awaiting w) \<longrightarrow>
        \<not> isDownloading (hooks (step img (Settle i out) w))
        \<and> calls (step img (Settle i out) w) =
            calls w @ (case out of Resolved \<Rightarrow> [] | Rejected e \<Rightarrow> [ConsoleError e])
              @ [SetIsDownloading False, OnClose]
        \<and> closures (step img (Settle i out) w) = closures w + 1)
   \<and> (\<not> isDownloading (rendered w) \<longrightarrow>
        \<not> isDownloading (hooks (run img [ClickDownload Promise, Settle (length (awaiting w)) out] w))
        \<and> calls (run img [ClickDownload Promise, Settle (length (awaiting w)) out] w) =
            calls w @ [SetIsDownloading True,
                       OnDownload (decade img) (url img) (css (selectedFilter (rendered w)))]
              @ (case out of Resolved \<Rightarrow> [] | Rejected e \<Rightarrow> [ConsoleError e])
              @ [SetIsDownloading False, OnClose]
        \<and> \<not> isDownloading (hooks (step img (ClickDownload (Threw x)) w))
        \<and> calls (step img (ClickDownload (Threw x)) w) =
            calls w @ [SetIsDownloading True,
                       OnDownload (decade img) (url img) (css (selectedFilter (rendered w))),
                       ConsoleError x, SetIsDownloading False, OnClose])
   \<and> (\<not> isDownloading (hooks w) \<longrightarrow>
        \<not> isDownloading (hooks (run img [Render, ClickDownload Promise,
                                            Settle (length (awaiting w)) out] w))
        \<and> calls (run img [Render, ClickDownload Promise, Settle (length (awaiting w)) out] w) =
            calls w @ [SetIsDownloading True,
                       OnDownload (decade img) (url img) (css (selectedFilter (hooks w)))]
              @ (case out of Resolved \<Rightarrow> [] | Rejected e \<Rightarrow> [ConsoleError e])
              @ [SetIsDownloading False, OnClose]
        \<and> \<not> isDownloading (hooks (run img [Render, ClickDownload (Threw x)] w))
        \<and> calls (run img [Render, ClickDownload (Threw x)] w) =
            calls w @ [SetIsDownloading True,
                       OnDownload (decade img) (url img) (css (selectedFilter (hooks w))),
                       ConsoleError x, SetIsDownloading False, OnClose])"
proof -
  have handler: "fst (handleDownloadClick_resume c w) = Normal"
    "\<not> isDownloading (hooks (snd (handleDownloadClick_resume c w)))"
    "calls (snd (handleDownloadClick_resume c w)) =
       calls w @ (case c of Normal \<Rightarrow> [] | Abrupt e \<Rightarrow> [ConsoleError e])
         @ [SetIsDownloading False, OnClose]"
    by (simp_all add: resume_fst resume_hooks resume_calls setIsDownloading_def)
  have once: "closures (snd (handleDownloadClick_resume c w)) = closures w + 1"
    by (cases c) (simp_all add: closures_def resume_calls count_OnClose_append)
  have settle: "\<not> isDownloading (hooks (step img (Settle i out) w))
      \<and> calls (step img (Settle i out) w) =
          calls w @ (case out of Resolved \<Rightarrow> [] | Rejected e \<Rightarrow> [ConsoleError e])
            @ [SetIsDownloading False, OnClose]
      \<and> closures (step img (Settle i out) w) = closures w + 1"
    if "i < length (awaiting w)"
    using that
    by (cases out)
      (simp_all add: step_Settle_calls step_Settle_hooks setIsDownloading_def
        closures_def count_OnClose_append del: step.simps)
  have whole: "\<not> isDownloading (hooks (run img [ClickDownload Promise, Settle (length (awaiting v)) out] v))
      \<and> calls (run img [ClickDownload Promise, Settle (length (awaiting v)) out] v) =
          calls v @ [SetIsDownloading True,
                     OnDownload (decade img) (url img) (css (selectedFilter (rendered v)))]
            @ (case out of Resolved \<Rightarrow> [] | Rejected e \<Rightarrow> [ConsoleError e])
            @ [SetIsDownloading False, OnClose]
      \<and> \<not> isDownloading (hooks (step img (ClickDownload (Threw x)) v))
      \<and> calls (step img (ClickDownload (Threw x)) v) =
          calls v @ [SetIsDownloading True,
                     OnDownload (decade img) (url img) (css (selectedFilter (rendered v))),
                     ConsoleError x, SetIsDownloading False, OnClose]"
    if idle: "\<not> isDownloading (rendered v)" for v
  proof -
    let ?v1 = "handleDownloadClick img Promise v"
    have first: "step img (ClickDownload Promise) v = ?v1"
      using idle by simp
    have pending: "length (awaiting v) < length (awaiting ?v1)"
      by (simp add: click_awaiting)
    have "run img [ClickDownload Promise, Settle (length (awaiting v)) out] v
            = step img (Settle (length (awaiting v)) out) ?v1"
      using first by simp
    moreover have "hooks (step img (Settle (length (awaiting v)) out) ?v1)
            = setIsDownloading False (hooks ?v1)"
      using pending by (rule step_Settle_hooks)
    moreover have "calls (step img (Settle (length (awaiting v)) out) ?v1)
            = calls ?v1 @ (case out of Resolved \<Rightarrow> [] | Rejected e \<Rightarrow> [ConsoleError e])
                @ [SetIsDownloading False, OnClose]"
      using pending by (rule step_Settle_calls)
    ultimately show ?thesis
      using idle by (simp add: click_calls click_hooks setIsDownloading_def)
  qed
  have after_render:
    "\<not> isDownloading (hooks (run img [Render, ClickDownload Promise,
                                        Settle (length (awaiting w)) out] w))
      \<and> calls (run img [Render, ClickDownload Promise, Settle (length (awaiting w)) out] w) =
          calls w @ [SetIsDownloading True,
                     OnDownload (decade img) (url img) (css (selectedFilter (hooks w)))]
            @ (case out of Resolved \<Rightarrow> [] | Rejected e \<Rightarrow> [ConsoleError e])
            @ [SetIsDownloading False, OnClose]
      \<and> \<not> isDownloading (hooks (run img [Render, ClickDownload (Threw x)] w))
      \<and> calls (run img [Render, ClickDownload (Threw x)] w) =
          calls w @ [SetIsDownloading True,
                     OnDownload (decade img) (url img) (css (selectedFilter (hooks w))),
                     ConsoleError x, SetIsDownloading False, OnClose]"
    if "\<not> isDownloading (hooks w)"
  proof -
    from that have "\<not> isDownloading (rendered (commit w))"
      by (simp add: commit_def)
    from whole [OF this] show ?thesis
      by (simp add: commit_def del: step.simps(4,5))
  qed
  from handler once settle whole [of w] after_render show ?thesis by blast
qed

theorem download_cleanup_witness:
  "0 < length (awaiting (step \<lparr>decade = ''1950s'', url = ''data:a''\<rparr> (ClickDownload Promise) mount))
   \<and> \<not> isDownloading (rendered mount)
   \<and> \<not> isDownloading (hooks mount)
   \<and> \<not> isDownloading (hooks (step \<lparr>decade = ''1950s'', url = ''data:a''\<rparr> (Settle 0 (Rejected ''offline''))
          (step \<lparr>decade = ''1950s'', url = ''data:a''\<rparr> (ClickDownload Promise) mount)))
   \<and> calls (run \<lparr>decade = ''1950s'', url = ''data:a''\<rparr>
        [ClickDownload Promise, Settle 0 (Rejected ''offline'')] mount) =
       [SetIsDownloading True, OnDownload ''1950s'' ''data:a'' ''none'', ConsoleError ''offline'',
        SetIsDownloading False, OnClose]
   \<and> closures (run \<lparr>decade = ''1950s'', url = ''data:a''\<rparr>
        [ClickDownload Promise, Settle 0 (Rejected ''offline'')] mount) = 1
   \<and> calls (run \<lparr>decade = ''1950s'', url = ''data:a''\<rparr>
        [Render, ClickDownload Promise, Settle 0 (Rejected ''offline'')] mount) =
       [SetIsDownloading True, OnDownload ''1950s'' ''data:a'' ''none'', ConsoleError ''offline'',
        SetIsDownloading False, OnClose]"
proof -
  let ?img = "\<lparr>decade = ''1950s'', url = ''data:a''\<rparr>"
  let ?w = "step ?img (ClickDownload Promise) mount"
  have pending: "0 < length (awaiting ?w)"
    by (simp add: mount_def useState_initial_def click_awaiting)
  have idle: "\<not> isDownloading (rendered mount)" "\<not> isDownloading (hooks mount)"
    by (simp_all add: mount_def useState_initial_def)
  have start: "calls ?w = [SetIsDownloading True, OnDownload ''1950s'' ''data:a'' ''none'']"
    "closures ?w = 0" "awaiting mount = []" "calls mount = []"
    "css (selectedFilter (hooks mount)) = ''none''"
    by (simp_all add: mount_def useState_initial_def click_calls FILTERS_def closures_def)
  from download_cleanup [of Normal ?w 0 ?img "Rejected ''offline''" "''x''"]
    download_cleanup [of Normal mount 0 ?img "Rejected ''offline''" "''x''"]
    pending idle start
  show ?thesis
    by (simp del: step.simps)
qed




subsection \<open>Sequences of events\<close>

lemma run_append: "run img (es @ fs) w = run img fs (run img es w)"
  by (induction es arbitrary: w) simp_all

lemma run_ClickFilter_awaiting: "awaiting (run img (map ClickFilter js) w) = awaiting w"
  by (induction js arbitrary: w) (simp_all add: step_ClickFilter_awaiting del: step.simps)

lemma step_ClickFilter_calls:
  "calls (step img (ClickFilter i) w) =
     calls w @ (if i < length FILTERS then [SetSelectedFilter (FILTERS ! i)] else [])"
  by (simp add: call_setSelectedFilter_def)

lemma run_ClickFilter_exports:
  "exports (calls (run img (map ClickFilter js) w)) = exports (calls w)"
  by (induction js arbitrary: w)
    (simp_all add: step_ClickFilter_calls exports_append del: step.simps)

lemma run_ClickFilter_closures: "closures (run img (map ClickFilter js) w) = closures w"
  by (induction js arbitrary: w)
    (simp_all add: step_ClickFilter_calls closures_def count_OnClose_append del: step.simps)

lemma run_ClickFilter_rendered: "rendered (run img (map ClickFilter js) w) = rendered w"
  by (induction js arbitrary: w) (simp_all add: call_setSelectedFilter_def)

text \<open>
  Every event keeps the flag in step with the exports in flight, as long as the component
  renders between one click on Download and the next: only a click on Download starts an
  export, it finds the button disabled when the last render saw an export in flight, and
  the settlement of the only export resets the flag.
\<close>

lemma step_one_in_flight:
  assumes inv: "one_in_flight clicked w"
    and events: "renders_between_downloads clicked (e # es)"
  shows "\<exists>clicked'. one_in_flight clicked' (step img e w) \<and> renders_between_downloads clicked' es"
proof (cases e)
  case (ClickFilter i)
  with inv events have "one_in_flight clicked (step img e w)"
    and "renders_between_downloads clicked es"
    by (simp_all add: one_in_flight_def call_setSelectedFilter_def setSelectedFilter_def)
  then show ?thesis by blast
next
  case ClickCancel
  with inv events have "one_in_flight clicked (step img e w)"
    and "renders_between_downloads clicked es"
    by (simp_all add: one_in_flight_def onClose_def)
  then show ?thesis by blast
next
  case ClickBackdrop
  with inv events have "one_in_flight clicked (step img e w)"
    and "renders_between_downloads clicked es"
    by (simp_all add: one_in_flight_def onClose_def)
  then show ?thesis by blast
next
  case (ClickDownload r)
  with events have fresh: "\<not> clicked" and rest: "renders_between_downloads True es"
    by simp_all
  have "one_in_flight True (step img e w)"
  proof (cases "isDownloading (rendered w)")
    case True
    with inv show ?thesis
      unfolding ClickDownload by (simp add: one_in_flight_def)
  next
    case False
    with inv fresh have "awaiting w = []"
      by (simp add: one_in_flight_def)
    with False show ?thesis
      unfolding ClickDownload
      by (cases r)
        (simp_all add: one_in_flight_def click_hooks click_awaiting setIsDownloading_def)
  qed
  with rest show ?thesis by blast
next
  case (Settle i out)
  from events have rest: "renders_between_downloads clicked es"
    unfolding Settle by simp
  have "one_in_flight clicked (step img e w)"
  proof (cases "i < length (awaiting w)")
    case True
    with inv have "i = 0" and "length (awaiting w) = 1"
      by (simp_all add: one_in_flight_def)
    with True show ?thesis
      unfolding Settle
      by (simp add: one_in_flight_def resume_hooks resume_awaiting setIsDownloading_def)
  next
    case False
    with inv show ?thesis unfolding Settle by simp
  qed
  with rest show ?thesis by blast
next
  case Render
  with inv events have "one_in_flight False (step img e w)"
    and "renders_between_downloads False es"
    by (simp_all add: one_in_flight_def commit_def)
  then show ?thesis by blast
qed

lemma run_one_in_flight:
  "one_in_flight clicked w \<Longrightarrow> renders_between_downloads clicked es \<Longrightarrow>
     \<exists>clicked'. one_in_flight clicked' (run img es w)"
proof (induction es arbitrary: clicked w)
  case Nil
  then show ?case by auto
next
  case (Cons e es)
  from step_one_in_flight [OF Cons.prems, of img]
  obtain clicked' where "one_in_flight clicked' (step img e w)"
    and "renders_between_downloads clicked' es"
    by blast
  then have "\<exists>c. one_in_flight c (run img es (step img e w))"
    by (rule Cons.IH)
  then show ?case by simp
qed

text \<open>
  Claim C2, as stated, fails: \<open>handleDownloadClick\<close> does not test the flag, and the
  Download button is disabled only by a render. Two clicks on Download that arrive before
  the component has rendered again both run the handler, although the first has already
  set the flag: the export collaborator is called twice and two exports are in flight.
  So does the handler itself when it is run a second time while the flag is set.
\<close>

theorem two_downloads_counterexample:
  "isDownloading (hooks (run \<lparr>decade = ''1950s'', url = ''data:a''\<rparr> [ClickDownload Promise] mount))
   \<and> awaiting (run \<lparr>decade = ''1950s'', url = ''data:a''\<rparr>
        [ClickDownload Promise, ClickDownload Promise] mount)
       = [(''1950s'', ''data:a'', ''none''), (''1950s'', ''data:a'', ''none'')]
   \<and> exports (calls (run \<lparr>decade = ''1950s'', url = ''data:a''\<rparr>
        [ClickDownload Promise, ClickDownload Promise] mount))
       = [(''1950s'', ''data:a'', ''none''), (''1950s'', ''data:a'', ''none'')]
   \<and> isDownloading (hooks (handleDownloadClick \<lparr>decade = ''1950s'', url = ''data:a''\<rparr> Promise mount))
   \<and> awaiting (handleDownloadClick \<lparr>decade = ''1950s'', url = ''data:a''\<rparr> Promise
        (handleDownloadClick \<lparr>decade = ''1950s'', url = ''data:a''\<rparr> Promise mount))
       = [(''1950s'', ''data:a'', ''none''), (''1950s'', ''data:a'', ''none'')]"
  by (simp add: mount_def useState_initial_def FILTERS_def handleDownloadClick_def
      onDownload_def call_setIsDownloading_def setIsDownloading_def)

text \<open>
  Claim C2, amended. A click on Download is ignored whenever the last committed render
  has \<open>isDownloading\<close> true, which is when the button is rendered disabled: the modal is
  left exactly as it was and the export collaborator is not called. Along every sequence
  of events from the mount in which the component renders between one click on Download
  and the next, the flag is true exactly while an export is in flight and at most one
  export is in flight; while one is, a click on Download after the next render starts no
  second one.
\<close>

theorem one_export_in_flight_between_renders:
  "(isDownloading (rendered w) \<longrightarrow> step img (ClickDownload r) w = w)
   \<and> (renders_between_downloads False es \<longrightarrow>
        length (awaiting (run img es mount)) \<le> 1
        \<and> (isDownloading (hooks (run img es mount)) \<longleftrightarrow> awaiting (run img es mount) \<noteq> [])
        \<and> (awaiting (run img es mount) \<noteq> [] \<longrightarrow>
             run img (es @ [Render, ClickDownload r]) mount = run img (es @ [Render]) mount))"
proof -
  have start: "one_in_flight False mount"
    by (simp add: one_in_flight_def mount_def useState_initial_def)
  have kept: "length (awaiting (run img es mount)) \<le> 1
      \<and> (isDownloading (hooks (run img es mount)) \<longleftrightarrow> awaiting (run img es mount) \<noteq> [])
      \<and> (awaiting (run img es mount) \<noteq> [] \<longrightarrow>
           run img (es @ [Render, ClickDownload r]) mount = run img (es @ [Render]) mount)"
    if "renders_between_downloads False es"
  proof -
    from run_one_in_flight [OF start that, of img]
    have inv: "length (awaiting (run img es mount)) \<le> 1"
      "isDownloading (hooks (run img es mount)) \<longleftrightarrow> awaiting (run img es mount) \<noteq> []"
      by (auto simp: one_in_flight_def)
    have "run img (es @ [Render, ClickDownload r]) mount = run img (es @ [Render]) mount"
      if "awaiting (run img es mount) \<noteq> []"
      using that inv by (simp add: run_append commit_def)
    with inv show ?thesis by simp
  qed
  then show ?thesis by simp
qed

theorem one_export_in_flight_between_renders_witness:
  "isDownloading (rendered (run \<lparr>decade = ''1950s'', url = ''data:a''\<rparr> [ClickDownload Promise, Render] mount))
   \<and> renders_between_downloads False [ClickDownload Promise]
   \<and> awaiting (run \<lparr>decade = ''1950s'', url = ''data:a''\<rparr> [ClickDownload Promise] mount) \<noteq> []
   \<and> run \<lparr>decade = ''1950s'', url = ''data:a''\<rparr> [ClickDownload Promise, Render, ClickDownload Promise] mount
       = run \<lparr>decade = ''1950s'', url = ''data:a''\<rparr> [ClickDownload Promise, Render] mount
   \<and> exports (calls (run \<lparr>decade = ''1950s'', url = ''data:a''\<rparr>
        [ClickDownload Promise, Render, ClickDownload Promise] mount)) = [(''1950s'', ''data:a'', ''none'')]"
proof -
  let ?img = "\<lparr>decade = ''1950s'', url = ''data:a''\<rparr>"
  let ?w1 = "run ?img [ClickDownload Promise] mount"
  let ?w2 = "run ?img [ClickDownload Promise, Render] mount"
  have busy: "isDownloading (rendered ?w2)" "awaiting ?w1 \<noteq> []"
    "exports (calls ?w2) = [(''1950s'', ''data:a'', ''none'')]"
    "renders_between_downloads False [ClickDownload Promise]"
    by (simp_all add: mount_def useState_initial_def FILTERS_def click_hooks click_awaiting
        click_calls setIsDownloading_def commit_def)
  from one_export_in_flight_between_renders [of ?w2 ?img Promise "[ClickDownload Promise]"] busy
  show ?thesis
    by (simp del: step.simps run.simps)
qed

lemma run_select_and_render_awaiting:
  "awaiting (run img (select_and_render js) w) = awaiting w"
  by (induction js arbitrary: w) (simp_all add: call_setSelectedFilter_def commit_def)

lemma run_select_and_render_exports:
  "exports (calls (run img (select_and_render js) w)) = exports (calls w)"
  by (induction js arbitrary: w)
    (simp_all add: call_setSelectedFilter_def commit_def exports_append)

text \<open>
  An export started by an enabled click keeps its arguments through any events that
  neither start nor settle an export.
\<close>

lemma export_kept:
  assumes idle: "\<not> isDownloading (rendered v)"
    and awaiting_kept: "\<And>u. awaiting (run img es u) = awaiting u"
    and exports_kept: "\<And>u. exports (calls (run img es u)) = exports (calls u)"
  shows "awaiting (run img (ClickDownload Promise # es) v) =
           awaiting v @ [(decade img, url img, css (selectedFilter (rendered v)))]"
    and "exports (calls (run img (ClickDownload Promise # es) v)) =
           exports (calls v) @ [(decade img, url img, css (selectedFilter (rendered v)))]"
    and "exports (calls (run img (ClickDownload Promise # es @ [Settle (length (awaiting v)) out]) v)) =
           exports (calls v) @ [(decade img, url img, css (selectedFilter (rendered v)))]"
proof -
  let ?args = "(decade img, url img, css (selectedFilter (rendered v)))"
  let ?v1 = "handleDownloadClick img Promise v"
  let ?v2 = "run img es ?v1"
  have first: "step img (ClickDownload Promise) v = ?v1"
    using idle by simp
  show in_flight: "awaiting (run img (ClickDownload Promise # es) v) = awaiting v @ [?args]"
    using first by (simp add: awaiting_kept click_awaiting)
  show logged: "exports (calls (run img (ClickDownload Promise # es) v)) = exports (calls v) @ [?args]"
    using first by (simp add: exports_kept click_calls exports_append)
  have pending: "length (awaiting v) < length (awaiting ?v2)"
    by (simp add: awaiting_kept click_awaiting)
  have "run img (ClickDownload Promise # es @ [Settle (length (awaiting v)) out]) v
          = step img (Settle (length (awaiting v)) out) ?v2"
    using first by (simp add: run_append del: step.simps)
  moreover have "exports (calls (step img (Settle (length (awaiting v)) out) ?v2))
          = exports (calls ?v2)"
    by (cases out) (simp_all add: step_Settle_calls [OF pending] exports_append del: step.simps)
  ultimately show
    "exports (calls (run img (ClickDownload Promise # es @ [Settle (length (awaiting v)) out]) v)) =
       exports (calls v) @ [?args]"
    using logged first by simp
qed

text \<open>
  Claim C5. The arguments of an export are fixed when the handler calls the
  collaborator. Whatever filters are selected while the export is in flight, with or
  without a render after each, the export in flight and the recorded call keep the css of
  the filter that was selected at the click, although the selection itself does change;
  the settlement adds no call of the collaborator. The selected filter the click sees is
  that of the last render; from a state that is idle and has been rendered, it is that of
  the state.
\<close>

theorem export_args_snapshot:
  "(\<not> isDownloading (rendered w) \<longrightarrow>
     awaiting (run img (ClickDownload Promise # map ClickFilter js) w) =
       awaiting w @ [(decade img, url img, css (selectedFilter (rendered w)))]
     \<and> exports (calls (run img (ClickDownload Promise # map ClickFilter js) w)) =
         exports (calls w) @ [(decade img, url img, css (selectedFilter (rendered w)))]
     \<and> exports (calls (run img (ClickDownload Promise # map ClickFilter js
                                  @ [Settle (length (awaiting w)) out]) w)) =
         exports (calls w) @ [(decade img, url img, css (selectedFilter (rendered w)))]
     \<and> (j < length FILTERS \<longrightarrow>
          selectedFilter (hooks (run img [ClickDownload Promise, ClickFilter j] w)) = FILTERS ! j))
   \<and> (\<not> isDownloading (hooks w) \<longrightarrow>
     awaiting (run img (Render # ClickDownload Promise # map ClickFilter js) w) =
       awaiting w @ [(decade img, url img, css (selectedFilter (hooks w)))]
     \<and> exports (calls (run img (Render # ClickDownload Promise # map ClickFilter js) w)) =
         exports (calls w) @ [(decade img, url img, css (selectedFilter (hooks w)))]
     \<and> exports (calls (run img (Render # ClickDownload Promise # map ClickFilter js
                                  @ [Settle (length (awaiting w)) out]) w)) =
         exports (calls w) @ [(decade img, url img, css (selectedFilter (hooks w)))]
     \<and> awaiting (run img (Render # ClickDownload Promise # select_and_render js) w) =
         awaiting w @ [(decade img, url img, css (selectedFilter (hooks w)))]
     \<and> exports (calls (run img (Render # ClickDownload Promise # select_and_render js
                                  @ [Settle (length (awaiting w)) out]) w)) =
         exports (calls w) @ [(decade img, url img, css (selectedFilter (hooks w)))]
     \<and> (j < length FILTERS \<longrightarrow>
          selectedFilter (hooks (run img [Render, ClickDownload Promise, ClickFilter j] w))
            = FILTERS ! j
          \<and> selectedFilter (rendered (run img [Render, ClickDownload Promise,
                                                ClickFilter j, Render] w)) = FILTERS ! j))"
proof -
  have stale: "awaiting (run img (ClickDownload Promise # map ClickFilter js) w) =
        awaiting w @ [(decade img, url img, css (selectedFilter (rendered w)))]
      \<and> exports (calls (run img (ClickDownload Promise # map ClickFilter js) w)) =
          exports (calls w) @ [(decade img, url img, css (selectedFilter (rendered w)))]
      \<and> exports (calls (run img (ClickDownload Promise # map ClickFilter js
                                   @ [Settle (length (awaiting w)) out]) w)) =
          exports (calls w) @ [(decade img, url img, css (selectedFilter (rendered w)))]
      \<and> (j < length FILTERS \<longrightarrow>
           selectedFilter (hooks (run img [ClickDownload Promise, ClickFilter j] w)) = FILTERS ! j)"
    if idle: "\<not> isDownloading (rendered w)"
  proof -
    have "selectedFilter (hooks (run img [ClickDownload Promise, ClickFilter j] w)) = FILTERS ! j"
      if "j < length FILTERS"
      using that idle by (simp add: call_setSelectedFilter_def setSelectedFilter_def)
    with export_kept [OF idle run_ClickFilter_awaiting run_ClickFilter_exports, of img js]
    show ?thesis by simp
  qed
  have fresh: "awaiting (run img (Render # ClickDownload Promise # map ClickFilter js) w) =
        awaiting w @ [(decade img, url img, css (selectedFilter (hooks w)))]
      \<and> exports (calls (run img (Render # ClickDownload Promise # map ClickFilter js) w)) =
          exports (calls w) @ [(decade img, url img, css (selectedFilter (hooks w)))]
      \<and> exports (calls (run img (Render # ClickDownload Promise # map ClickFilter js
                                   @ [Settle (length (awaiting w)) out]) w)) =
          exports (calls w) @ [(decade img, url img, css (selectedFilter (hooks w)))]
      \<and> awaiting (run img (Render # ClickDownload Promise # select_and_render js) w) =
          awaiting w @ [(decade img, url img, css (selectedFilter (hooks w)))]
      \<and> exports (calls (run img (Render # ClickDownload Promise # select_and_render js
                                   @ [Settle (length (awaiting w)) out]) w)) =
          exports (calls w) @ [(decade img, url img, css (selectedFilter (hooks w)))]
      \<and> (j < length FILTERS \<longrightarrow>
           selectedFilter (hooks (run img [Render, ClickDownload Promise, ClickFilter j] w))
             = FILTERS ! j
           \<and> selectedFilter (rendered (run img [Render, ClickDownload Promise,
                                                 ClickFilter j, Render] w)) = FILTERS ! j)"
    if idle: "\<not> isDownloading (hooks w)"
  proof -
    let ?v = "commit w"
    have rendered_idle: "\<not> isDownloading (rendered ?v)"
      using idle by (simp add: commit_def)
    have same: "awaiting ?v = awaiting w" "calls ?v = calls w" "rendered ?v = hooks w"
      by (simp_all add: commit_def)
    have rendered_first: "run img (Render # es) w = run img es ?v" for es
      by simp
    have selected:
      "selectedFilter (hooks (run img [Render, ClickDownload Promise, ClickFilter j] w))
         = FILTERS ! j
       \<and> selectedFilter (rendered (run img [Render, ClickDownload Promise,
                                             ClickFilter j, Render] w)) = FILTERS ! j"
      if "j < length FILTERS"
      using that idle
      by (simp add: commit_def call_setSelectedFilter_def setSelectedFilter_def)
    from export_kept [OF rendered_idle run_ClickFilter_awaiting run_ClickFilter_exports, of img js]
      export_kept [OF rendered_idle run_select_and_render_awaiting run_select_and_render_exports,
        of img js]
      selected
    show ?thesis
      unfolding rendered_first same by blast
  qed
  from stale fresh show ?thesis by blast
qed

theorem export_args_snapshot_witness:
  "\<not> isDownloading (rendered mount)
   \<and> \<not> isDownloading (hooks mount)
   \<and> (1::nat) < length FILTERS
   \<and> awaiting (run \<lparr>decade = ''1950s'', url = ''data:a''\<rparr>
        [ClickDownload Promise, ClickFilter 1] mount) = [(''1950s'', ''data:a'', ''none'')]
   \<and> exports (calls (run \<lparr>decade = ''1950s'', url = ''data:a''\<rparr>
        [ClickDownload Promise, ClickFilter 1, Settle 0 Resolved] mount))
       = [(''1950s'', ''data:a'', ''none'')]
   \<and> selectedFilter (hooks (run \<lparr>decade = ''1950s'', url = ''data:a''\<rparr>
        [ClickDownload Promise, ClickFilter 1] mount)) = \<lparr>name = ''Sepia'', css = ''sepia(0.8)''\<rparr>
   \<and> exports (calls (run \<lparr>decade = ''1950s'', url = ''data:a''\<rparr>
        [Render, ClickDownload Promise, ClickFilter 1, Render, Settle 0 Resolved] mount))
       = [(''1950s'', ''data:a'', ''none'')]
   \<and> selectedFilter (rendered (run \<lparr>decade = ''1950s'', url = ''data:a''\<rparr>
        [Render, ClickDownload Promise, ClickFilter 1, Render] mount))
       = \<lparr>name = ''Sepia'', css = ''sepia(0.8)''\<rparr>"
proof -
  have idle: "\<not> isDownloading (rendered mount)" "\<not> isDownloading (hooks mount)"
    by (simp_all add: mount_def useState_initial_def)
  have start: "awaiting mount = []" "calls mount = []"
    "css (selectedFilter (rendered mount)) = ''none''"
    "css (selectedFilter (hooks mount)) = ''none''"
    "(1::nat) < length FILTERS" "FILTERS ! 1 = \<lparr>name = ''Sepia'', css = ''sepia(0.8)''\<rparr>"
    by (simp_all add: mount_def useState_initial_def FILTERS_def)
  from export_args_snapshot [of mount "\<lparr>decade = ''1950s'', url = ''data:a''\<rparr>" "[1]" Resolved 1]
    idle start
  show ?thesis
    by (simp del: step.simps run.simps)
qed

subsection \<open>The selection stays in the catalog\<close>

lemma step_selected_member:
  assumes "selectedFilter (hooks w) \<in> set FILTERS"
  shows "selectedFilter (hooks (step img e w)) \<in> set FILTERS"
proof (cases e)
  case (ClickFilter i)
  with assms show ?thesis
    by (simp add: step_ClickFilter_hooks setSelectedFilter_def del: step.simps)
next
  case (ClickDownload r)
  with assms show ?thesis
    by (simp add: click_hooks setIsDownloading_def)
next
  case (Settle i out)
  with assms show ?thesis
    by (simp add: resume_hooks setIsDownloading_def)
qed (use assms in \<open>simp_all add: onClose_def commit_def\<close>)

lemma run_selected_member:
  "selectedFilter (hooks w) \<in> set FILTERS \<Longrightarrow>
     selectedFilter (hooks (run img es w)) \<in> set FILTERS"
  by (induction es arbitrary: w) (simp_all add: step_selected_member del: step.simps)

text \<open>
  Claim C9, as stated, fails on the setter: it has no guard. Called with a filter that is
  not in the catalog, \<open>setSelectedFilter\<close> makes that filter the selected one, so the
  selection neither stays what it was nor stays in the catalog.
\<close>

theorem select_foreign_counterexample:
  "\<lparr>name = ''Neon'', css = ''invert(1)''\<rparr> \<notin> set FILTERS
   \<and> selectedFilter (setSelectedFilter \<lparr>name = ''Neon'', css = ''invert(1)''\<rparr> useState_initial)
       \<noteq> selectedFilter useState_initial
   \<and> selectedFilter (hooks (call_setSelectedFilter \<lparr>name = ''Neon'', css = ''invert(1)''\<rparr> mount))
       \<noteq> selectedFilter (hooks mount)
   \<and> selectedFilter (hooks (call_setSelectedFilter \<lparr>name = ''Neon'', css = ''invert(1)''\<rparr> mount))
       \<notin> set FILTERS"
  by (simp add: FILTERS_def setSelectedFilter_def call_setSelectedFilter_def
      useState_initial_def mount_def)

text \<open>
  Claim C9, amended. In every state the modal reaches from its mount by clicks and
  settlements, the selected filter is an entry of the catalog, because the only callers
  of the setter are the buttons rendered from the catalog. The setter itself does not
  check its argument: it cannot fail, and the filter it is given is the one selected
  afterwards, whether or not the catalog has it.
\<close>

theorem selected_filter_in_catalog:
  "selectedFilter (hooks (run img es mount)) \<in> set FILTERS
   \<and> selectedFilter (setSelectedFilter f s) = f
   \<and> selectedFilter (hooks (call_setSelectedFilter f w)) = f"
proof -
  have "selectedFilter (hooks mount) \<in> set FILTERS"
    by (simp add: mount_def useState_initial_def FILTERS_def)
  then have "selectedFilter (hooks (run img es mount)) \<in> set FILTERS"
    by (rule run_selected_member)
  then show ?thesis
    by (simp add: setSelectedFilter_def call_setSelectedFilter_def)
qed

subsection \<open>The closure signal\<close>

text \<open>
  Every event keeps the balance between closure signals given and exports in flight on
  one side and cancel events and exports started on the other.
\<close>

lemma step_closures_balance:
  "closures (step img e w) + length (awaiting (step img e w)) + length (exports (calls w)) =
     closures w + length (awaiting w) + (if is_cancel e then 1 else 0)
       + length (exports (calls (step img e w)))"
proof (cases e)
  case (ClickFilter i)
  then show ?thesis
    by (simp add: call_setSelectedFilter_def closures_def exports_append count_OnClose_append)
next
  case ClickCancel
  then show ?thesis
    by (simp add: onClose_def closures_def exports_append count_OnClose_append)
next
  case ClickBackdrop
  then show ?thesis
    by (simp add: onClose_def closures_def exports_append count_OnClose_append)
next
  case (ClickDownload r)
  then show ?thesis
    by (cases r)
      (simp_all add: click_calls click_awaiting closures_def exports_append count_OnClose_append)
next
  case (Settle i out)
  show ?thesis
  proof (cases "i < length (awaiting w)")
    case True
    then have "length (take i (awaiting w) @ drop (Suc i) (awaiting w)) + 1 = length (awaiting w)"
      by simp
    with True show ?thesis
      unfolding Settle
      by (cases out)
        (simp_all add: step_Settle_calls step_Settle_awaiting closures_def exports_append
          count_OnClose_append del: step.simps)
  next
    case False
    then show ?thesis unfolding Settle by simp
  qed
next
  case Render
  then show ?thesis
    by (simp add: commit_def closures_def)
qed

lemma run_closures_balance:
  "closures (run img es w) + length (awaiting (run img es w)) + length (exports (calls w)) =
     closures w + length (awaiting w) + length (filter is_cancel es)
       + length (exports (calls (run img es w)))"
proof (induction es arbitrary: w)
  case Nil
  show ?case by simp
next
  case (Cons e es)
  from Cons.IH [of "step img e w"] step_closures_balance [of img e w]
  show ?case by (cases "is_cancel e") (simp_all del: step.simps)
qed

text \<open>
  Claim C3, as stated, fails: nothing in the component remembers that the closure signal
  was given. A click on Cancel while a download is in flight calls \<open>onClose\<close>, and the
  handler calls it again when the download settles.
\<close>

theorem closure_twice_counterexample:
  "closures (run \<lparr>decade = ''1950s'', url = ''data:a''\<rparr>
      [ClickDownload Promise, ClickCancel, Settle 0 Resolved] mount) = 2"
  by (simp add: closures_def mount_def useState_initial_def handleDownloadClick_def
      handleDownloadClick_resume_def try_finally_def try_catch_def await_def onClose_def
      onDownload_def call_setIsDownloading_def setIsDownloading_def)

text \<open>
  Claim C3, amended. The closure signal takes no argument and is given exactly once by
  each cancel event (Cancel button or backdrop) and exactly once by each download attempt
  that has completed, whatever its outcome: in every state reached from the mount, the
  number of signals is the number of cancel events plus the number of exports started
  that are no longer in flight. So it is given exactly once in a session of filter
  selections ended by one cancel event, and in one of filter selections around one
  download attempt, ended by its settlement.
\<close>

theorem closure_signal_count:
  "closures (run img es mount) + length (awaiting (run img es mount)) =
     length (filter is_cancel es) + length (exports (calls (run img es mount)))
   \<and> closures (run img (map ClickFilter js @ [ClickCancel]) mount) = 1
   \<and> closures (run img (map ClickFilter js @ [ClickBackdrop]) mount) = 1
   \<and> closures (run img (map ClickFilter js @ [ClickDownload (Threw x)]) mount) = 1
   \<and> closures (run img (map ClickFilter js @ [ClickDownload Promise] @ map ClickFilter ks
                         @ [Settle 0 out]) mount) = 1"
proof -
  have start: "closures mount = 0" "awaiting mount = []" "calls mount = []"
    "\<not> isDownloading (rendered mount)"
    by (simp_all add: closures_def mount_def useState_initial_def)
  have balance: "closures (run img es mount) + length (awaiting (run img es mount)) =
      length (filter is_cancel es) + length (exports (calls (run img es mount)))"
    using run_closures_balance [of img es mount] by (simp add: start)
  let ?w = "run img (map ClickFilter js) mount"
  have selected: "closures ?w = 0" "awaiting ?w = []" "\<not> isDownloading (rendered ?w)"
    by (simp_all add: run_ClickFilter_closures run_ClickFilter_awaiting
        run_ClickFilter_rendered start)
  have cancel: "closures (run img (map ClickFilter js @ [ClickCancel]) mount) = 1"
    by (simp add: run_append selected onClose_def closures_def
        count_OnClose_append selected(1) [unfolded closures_def])
  have backdrop: "closures (run img (map ClickFilter js @ [ClickBackdrop]) mount) = 1"
    by (simp add: run_append selected onClose_def closures_def
        count_OnClose_append selected(1) [unfolded closures_def])
  have threw: "closures (run img (map ClickFilter js @ [ClickDownload (Threw x)]) mount) = 1"
    by (simp add: run_append selected click_calls closures_def
        count_OnClose_append selected(1) [unfolded closures_def])
  let ?w1 = "handleDownloadClick img Promise ?w"
  let ?w2 = "run img (map ClickFilter ks) ?w1"
  have in_flight: "awaiting ?w2 = [(decade img, url img, css (selectedFilter (rendered ?w)))]"
    by (simp add: run_ClickFilter_awaiting click_awaiting start)
  have quiet: "closures ?w2 = 0"
    by (simp add: run_ClickFilter_closures)
      (simp add: closures_def click_calls count_OnClose_append selected(1) [unfolded closures_def])
  have "closures (step img (Settle 0 out) ?w2) = closures ?w2 + 1"
    by (cases out)
      (simp_all add: step_Settle_calls in_flight closures_def count_OnClose_append
        del: step.simps)
  then have settled:
    "closures (run img (map ClickFilter js @ [ClickDownload Promise] @ map ClickFilter ks
                        @ [Settle 0 out]) mount) = 1"
    by (simp add: run_append selected quiet del: step.simps(5))
  from balance cancel backdrop threw settled show ?thesis
    by simp
qed

end
